theory Spec2Isabelle
  imports Main "HOL-Library.Word" "HOL-Library.Multiset"
    "HOL-Library.List_Lexorder" "HOL-Library.Product_Lexorder"
begin

unbundle bit_operations_syntax

section \<open>Bytes and buffers\<close>

text \<open>
  A \<open>QByteArray\<close>, a \<open>std::string\<close> and a region of memory between two pointers are all
  lists of octets. Sizes and offsets are natural numbers: every \<open>int\<close>, \<open>long\<close> and
  \<open>size_t\<close> of the storage code holds a length of such a buffer, which is non-negative and
  below \<open>2^31\<close> (the size type of \<open>QByteArray\<close> is \<open>int\<close>). No arithmetic of the model
  wraps; where the bound matters a theorem states it.
\<close>

type_synonym byte = "8 word"
type_synonym bytes = "byte list"

definition INT_MAX :: nat where
  "INT_MAX = 2147483647"

definition LONG_MAX :: nat where
  "LONG_MAX = 9223372036854775807"

definition sizeof_long :: nat where
  "sizeof_long = 8"

section \<open>The ASN.1 primitives of libcrypto\<close>

text \<open>
  \<open>ASN1_object_size\<close>, \<open>ASN1_put_object\<close> and \<open>ASN1_get_object\<close> belong to OpenSSL, not to
  the repository. They are written out here after \<open>crypto/asn1/asn1_lib.c\<close> (the 1.1.1 and
  3.x sources), because the record codec is nothing but calls to them.
\<close>

definition V_ASN1_UNIVERSAL :: nat where "V_ASN1_UNIVERSAL = 0x00"
definition V_ASN1_CONTEXT_SPECIFIC :: nat where "V_ASN1_CONTEXT_SPECIFIC = 0x80"
definition V_ASN1_PRIVATE :: nat where "V_ASN1_PRIVATE = 0xc0"
definition V_ASN1_CONSTRUCTED :: nat where "V_ASN1_CONSTRUCTED = 0x20"
definition V_ASN1_PRIMITIVE_TAG :: nat where "V_ASN1_PRIMITIVE_TAG = 0x1f"
definition V_ASN1_SEQUENCE :: nat where "V_ASN1_SEQUENCE = 16"
definition V_ASN1_SET :: nat where "V_ASN1_SET = 17"

lemmas asn1_consts =
  V_ASN1_UNIVERSAL_def V_ASN1_CONTEXT_SPECIFIC_def V_ASN1_PRIVATE_def
  V_ASN1_CONSTRUCTED_def V_ASN1_PRIMITIVE_TAG_def V_ASN1_SEQUENCE_def V_ASN1_SET_def

text \<open>
  \<open>for (i = 0; len > 0; i++) len >>= 8;\<close> counts the octets of a length, and
  \<open>while (tag > 0) { tag >>= 7; ret++; }\<close> the septets of a high tag number.
\<close>

fun octets :: "nat \<Rightarrow> nat" where
  "octets n = (if n = 0 then 0 else Suc (octets (n div 256)))"

fun septets :: "nat \<Rightarrow> nat" where
  "septets n = (if n = 0 then 0 else Suc (septets (n div 128)))"

declare octets.simps [simp del] septets.simps [simp del]

text \<open>
  \<open>while (i-- > 0) { p[i] = length & 0xff; length >>= 8; }\<close> stores the \<open>i\<close> low octets of
  the length, most significant first.
\<close>

fun put_octets :: "nat \<Rightarrow> nat \<Rightarrow> bytes" where
  "put_octets 0 n = []"
| "put_octets (Suc i) n = put_octets i (n div 256) @ [of_nat (n mod 256)]"

text \<open>
  The same loop for a high tag number: seven bits an octet, bit 8 set on all but the last
  (\<open>if (i != (ttag - 1)) p[i] |= 0x80\<close>). The flag says whether the octet is the last one.
\<close>

fun put_septets :: "nat \<Rightarrow> bool \<Rightarrow> nat \<Rightarrow> bytes" where
  "put_septets 0 lst n = []"
| "put_septets (Suc i) lst n =
     put_septets i False (n div 128) @ [of_nat (if lst then n mod 128 else n mod 128 OR 0x80)]"

definition asn1_put_length :: "nat \<Rightarrow> bytes" where
  "asn1_put_length len =
     (if len \<le> 127 then [of_nat len]
      else of_nat (octets len OR 0x80) # put_octets (octets len) len)"

definition ASN1_put_object :: "nat \<Rightarrow> nat \<Rightarrow> nat \<Rightarrow> nat \<Rightarrow> bytes" where
  "ASN1_put_object constructed len tag xclass =
     (let i = (if constructed \<noteq> 0 then V_ASN1_CONSTRUCTED else 0) OR (xclass AND V_ASN1_PRIVATE)
      in (if tag < 31 then [of_nat (i OR (tag AND V_ASN1_PRIMITIVE_TAG))]
          else of_nat (i OR V_ASN1_PRIMITIVE_TAG) # put_septets (septets tag) True tag)
         @ (if constructed = 2 then [0x80] else asn1_put_length len))"


text \<open>
  Reading. The argument is the memory from \<open>*pp\<close> up to the limit \<open>omax\<close>, which every caller
  in the repository passes as \<open>end - *pp\<close>. \<open>Asn1Error\<close> is the return value \<open>0x80\<close> of the
  \<open>err\<close> label: nothing is stored and \<open>*pp\<close> stays. Otherwise the return value, the length,
  the tag, the class and the memory from the advanced \<open>*pp\<close> on are given.
\<close>

datatype asn1_header =
  Asn1Error
  | Asn1Header (hret: nat) (hlen: nat) (htag: nat) (hclass: nat) (hrest: bytes)

fun get_high_tag :: "nat \<Rightarrow> bytes \<Rightarrow> (nat \<times> bytes) option" where
  "get_high_tag len [] = None"
| "get_high_tag len (b # p) =
     (if b AND 0x80 \<noteq> 0 then
        (let len' = push_bit 7 len OR unat (b AND 0x7f)
         in if p = [] then None
            else if len' > drop_bit 7 INT_MAX then None
            else get_high_tag len' p)
      else Some (push_bit 7 len OR unat (b AND 0x7f), p))"

fun skip_zeroes :: "nat \<Rightarrow> bytes \<Rightarrow> nat \<times> bytes" where
  "skip_zeroes i (b # p) = (if i > 0 \<and> b = 0 then skip_zeroes (i - 1) p else (i, b # p))"
| "skip_zeroes i [] = (i, [])"

fun get_octets :: "nat \<Rightarrow> nat \<Rightarrow> bytes \<Rightarrow> nat \<times> bytes" where
  "get_octets ret i (b # p) =
     (if i > 0 then get_octets (push_bit 8 ret OR unat b) (i - 1) p else (ret, b # p))"
| "get_octets ret i [] = (ret, [])"

definition asn1_get_length :: "bytes \<Rightarrow> (bool \<times> nat \<times> bytes) option" where
  "asn1_get_length bs =
     (case bs of
        [] \<Rightarrow> None
      | b # p \<Rightarrow>
          (if b = 0x80 then Some (True, 0, p)
           else
             (let i = unat (b AND 0x7f)
              in if b AND 0x80 \<noteq> 0 then
                   (if length p < i + 1 then None
                    else
                      (let (i', p') = skip_zeroes i p
                       in if i' > sizeof_long then None
                          else
                            (let (ret, p'') = get_octets 0 i' p'
                             in if ret > LONG_MAX then None else Some (False, ret, p''))))
                 else Some (False, i, p))))"

definition ASN1_get_object :: "bytes \<Rightarrow> asn1_header" where
  "ASN1_get_object bs =
     (case bs of
        [] \<Rightarrow> Asn1Error
      | b # p \<Rightarrow>
          (let ret = unat (b AND 0x20);
               xclass = unat (b AND 0xc0);
               i = unat (b AND 0x1f)
           in (case (if i = V_ASN1_PRIMITIVE_TAG then get_high_tag 0 p else Some (i, p)) of
                 None \<Rightarrow> Asn1Error
               | Some (tag, p') \<Rightarrow>
                   (if p' = [] then Asn1Error
                    else
                      (case asn1_get_length p' of
                         None \<Rightarrow> Asn1Error
                       | Some (indef, len, p'') \<Rightarrow>
                           (if indef \<and> ret AND V_ASN1_CONSTRUCTED = 0 then Asn1Error
                            else
                              Asn1Header
                                ((if len > length p'' then ret OR 0x80 else ret)
                                 OR (if indef then 1 else 0))
                                len tag xclass p''))))))"

lemma get_high_tag_shorter:
  "get_high_tag len p = Some (t, p') \<Longrightarrow> length p' < length p"
  by (induction len p rule: get_high_tag.induct) (auto simp: Let_def split: if_splits)

lemma skip_zeroes_shorter:
  "skip_zeroes i p = (i', p') \<Longrightarrow> length p' \<le> length p"
  by (induction i p rule: skip_zeroes.induct) (auto split: if_splits)

lemma get_octets_shorter:
  "get_octets ret i p = (ret', p') \<Longrightarrow> length p' \<le> length p"
  by (induction ret i p rule: get_octets.induct) (auto split: if_splits)

lemma asn1_get_length_shorter:
  "asn1_get_length p = Some (indef, len, p') \<Longrightarrow> length p' < length p"
  by (auto simp: asn1_get_length_def Let_def split: list.splits if_splits prod.splits
      dest!: skip_zeroes_shorter get_octets_shorter)

lemma ASN1_get_object_shorter:
  "ASN1_get_object bs = Asn1Header r l t c rest \<Longrightarrow> length rest < length bs"
  by (auto simp: ASN1_get_object_def Let_def
      split: list.splits option.splits if_splits prod.splits
      dest!: get_high_tag_shorter asn1_get_length_shorter)

section \<open>Records: \<open>DataRow\<close>\<close>

text \<open>
  \<open>QByteArray cells[DATA_COLS_COUNT]\<close>: four cells, read and written by index.
\<close>

definition DATA_COLS_COUNT :: nat where
  "DATA_COLS_COUNT = 4"

definition cellTags :: "nat list" where
  "cellTags = [0, 1, 2, 16]"

datatype DataRow = DataRow bytes bytes bytes bytes

fun cells :: "DataRow \<Rightarrow> nat \<Rightarrow> bytes" where
  "cells (DataRow a b c d) i =
     (if i = 0 then a else if i = 1 then b else if i = 2 then c else d)"

text \<open>\<open>cells[i].append(src, n)\<close>\<close>

fun cells_append :: "nat \<Rightarrow> bytes \<Rightarrow> DataRow \<Rightarrow> DataRow" where
  "cells_append i src (DataRow a b c d) =
     (if i = 0 then DataRow (a @ src) b c d
      else if i = 1 then DataRow a (b @ src) c d
      else if i = 2 then DataRow a b (c @ src) d
      else DataRow a b c (d @ src))"

text \<open>The default constructor \<open>DataRow::DataRow()\<close>: four empty cells.\<close>

definition DataRow_empty :: DataRow where
  "DataRow_empty = DataRow [] [] [] []"

subsection \<open>\<open>DataRow::encode\<close>\<close>


subsection \<open>The parsing constructor \<open>DataRow::DataRow(ptr, endPtr)\<close>\<close>

text \<open>
  \<open>for (i ...) if (tag == cellTags[i]) { cells[i].append(curPtr, length); break; }\<close>
\<close>

fun choose_cell :: "nat \<Rightarrow> nat list \<Rightarrow> bytes \<Rightarrow> DataRow \<Rightarrow> DataRow" where
  "choose_cell tag [] src row = row"
| "choose_cell tag (i # rest) src row =
     (if tag = cellTags ! i then cells_append i src row else choose_cell tag rest src row)"

text \<open>
  The loop \<open>while (curPtr < entryEnd)\<close>; the argument is the memory from \<open>curPtr\<close> to
  \<open>entryEnd\<close>.
\<close>

function decode_cells :: "bytes \<Rightarrow> DataRow \<Rightarrow> DataRow" where
  "decode_cells body row =
     (if body = [] then row
      else
        (case ASN1_get_object body of
           Asn1Error \<Rightarrow> row
         | Asn1Header ret len tag xclass rest \<Rightarrow>
             (if ret \<noteq> 0 \<or> V_ASN1_CONTEXT_SPECIFIC \<noteq> xclass then row
              else decode_cells (drop len rest)
                     (choose_cell tag [0..<DATA_COLS_COUNT] (take len rest) row))))"
  by pat_completeness auto
termination
  by (relation "measure (\<lambda>(body, row). length body)")
    (auto dest: ASN1_get_object_shorter)

declare decode_cells.simps [simp del]

text \<open>
  The constructor: the argument is the memory from \<open>*ptr\<close> to \<open>endPtr\<close>, the result the row
  and the memory from the new \<open>*ptr\<close> to \<open>endPtr\<close>.
\<close>

definition DataRow_parse :: "bytes \<Rightarrow> DataRow \<times> bytes" where
  "DataRow_parse bs =
     (case ASN1_get_object bs of
        Asn1Error \<Rightarrow> (DataRow_empty, [])
      | Asn1Header ret len tag xclass rest \<Rightarrow>
          (if ret \<noteq> V_ASN1_CONSTRUCTED \<or> V_ASN1_SET \<noteq> tag \<or> V_ASN1_UNIVERSAL \<noteq> xclass
              \<or> len > length rest
           then (DataRow_empty, [])
           else (decode_cells (take len rest) DataRow_empty, drop len rest)))"

subsection \<open>\<open>DataRow::operator <\<close>\<close>

text \<open>
  \<open>strcmp\<close> on \<open>constData()\<close>: a \<open>QByteArray\<close> always has a zero octet after its data, so the
  end of the list reads as 0. Octets compare as \<open>unsigned char\<close>; the result is the sign.
\<close>

fun strcmp :: "bytes \<Rightarrow> bytes \<Rightarrow> int" where
  "strcmp [] [] = 0"
| "strcmp [] (y # ys) = (if y = 0 then 0 else - 1)"
| "strcmp (x # xs) [] = (if x = 0 then 0 else 1)"
| "strcmp (x # xs) (y # ys) =
     (if x < y then - 1 else if y < x then 1 else if x = 0 then 0 else strcmp xs ys)"

fun less_loop :: "nat list \<Rightarrow> DataRow \<Rightarrow> DataRow \<Rightarrow> bool" where
  "less_loop [] r other = False"
| "less_loop (i # rest) r other =
     (let cmpRes = strcmp (cells r i) (cells other i)
      in if cmpRes < 0 then True
         else if cmpRes > 0 then False
         else less_loop rest r other)"

definition DataRow_less :: "DataRow \<Rightarrow> DataRow \<Rightarrow> bool" where
  "DataRow_less r other = less_loop [0..<DATA_COLS_COUNT] r other"

subsection \<open>\<open>std::multiset<DataRow>\<close>\<close>

text \<open>
  The container is the list of its elements in iteration order. \<open>insert\<close> puts the new
  element at the upper bound: before the first element that it is less than.
\<close>

fun multiset_insert :: "DataRow \<Rightarrow> DataRow list \<Rightarrow> DataRow list" where
  "multiset_insert x [] = [x]"
| "multiset_insert x (y # ys) =
     (if DataRow_less x y then x # y # ys else y # multiset_insert x ys)"

section \<open>The environment of the storage engine\<close>

text \<open>
  The cipher and the random source are libcrypto's, the files are the operating system's.
  The engine is modelled for any behaviour of them:
  \<^item> \<open>RAND_iv\<close>: what \<open>RAND_bytes(ivPtr, ENC_IV_SIZE)\<close> stores, \<open>None\<close> when it fails;
  \<^item> \<open>gcm_encrypt key iv payload\<close>: the ciphertext and the tag of an AES-256-GCM
    encryption (\<open>EVP_EncryptInit\<close> to \<open>EVP_CTRL_GCM_GET_TAG\<close>), \<open>None\<close> when a call fails;
  \<^item> \<open>gcm_decrypt key iv payload mac\<close>: the plaintext (\<open>EVP_DecryptInit\<close> to
    \<open>EVP_DecryptFinal\<close>), \<open>None\<close> when a call fails or the tag does not match.
\<close>

record libcrypto =
  RAND_iv :: "bytes option"
  gcm_encrypt :: "bytes \<Rightarrow> bytes \<Rightarrow> bytes \<Rightarrow> (bytes \<times> bytes) option"
  gcm_decrypt :: "bytes \<Rightarrow> bytes \<Rightarrow> bytes \<Rightarrow> bytes \<Rightarrow> bytes option"

definition ENC_IV_SIZE :: nat where "ENC_IV_SIZE = 12"
definition ENC_MAC_SIZE :: nat where "ENC_MAC_SIZE = 16"
definition FILE_APPENDIX_SIZE :: nat where "FILE_APPENDIX_SIZE = ENC_IV_SIZE + ENC_MAC_SIZE"

text \<open>\<open>EVP_CIPHER_iv_length\<close> and \<open>EVP_CIPHER_key_length\<close> of \<open>EVP_aes_256_gcm()\<close>.\<close>

definition EVP_CIPHER_iv_length :: nat where "EVP_CIPHER_iv_length = 12"
definition EVP_CIPHER_key_length :: nat where "EVP_CIPHER_key_length = 32"


text \<open>
  The files: a name is mapped to its content, \<open>None\<close> when no such file exists (or it cannot
  be opened). The four operations that can fail on an existing directory are answered by
  the environment.
\<close>

type_synonym files = "string \<Rightarrow> bytes option"


section \<open>\<open>StorageEngine\<close>\<close>

record StorageEngine =
  data :: "DataRow list"
  dbFileName :: string
  errorDescription :: string
  key :: bytes

subsection \<open>\<open>encryptData\<close> and \<open>decryptData\<close>\<close>


definition decryptData :: "libcrypto \<Rightarrow> bytes \<Rightarrow> bytes \<Rightarrow> bytes option" where
  "decryptData lib k buf =
     (if EVP_CIPHER_iv_length \<noteq> ENC_IV_SIZE \<or> EVP_CIPHER_key_length \<noteq> length k
         \<or> length buf \<le> FILE_APPENDIX_SIZE
      then None
      else
        (let payloadSize = length buf - FILE_APPENDIX_SIZE;
             payload = take payloadSize buf;
             iv = take ENC_IV_SIZE (drop payloadSize buf);
             mac = drop (payloadSize + ENC_IV_SIZE) buf
         in (case gcm_decrypt lib k iv payload mac of
               None \<Rightarrow> None
             | Some plain \<Rightarrow> (if length plain \<noteq> payloadSize then None else Some plain))))"

subsection \<open>\<open>readDbFile\<close>\<close>

text \<open>
  The loop \<open>while (curPtr < endPtr) { DataRow curEntry(&curPtr, endPtr); data.insert(curEntry); }\<close>
  on the memory from \<open>curPtr\<close> to \<open>endPtr\<close>.
\<close>

lemma DataRow_parse_shorter:
  "bs \<noteq> [] \<Longrightarrow> DataRow_parse bs = (row, bs') \<Longrightarrow> length bs' < length bs"
  by (auto simp: DataRow_parse_def split: asn1_header.splits if_splits
      dest!: ASN1_get_object_shorter)

function read_rows :: "bytes \<Rightarrow> DataRow list \<Rightarrow> DataRow list" where
  "read_rows bs d =
     (if bs = [] then d
      else (case DataRow_parse bs of (curEntry, bs') \<Rightarrow> read_rows bs' (multiset_insert curEntry d)))"
  by pat_completeness auto
termination
  by (relation "measure (\<lambda>(bs, d). length bs)") (auto dest: DataRow_parse_shorter [OF _ sym])

declare read_rows.simps [simp del]

definition readFileContent :: "files \<Rightarrow> string \<Rightarrow> bytes option" where
  "readFileContent fs name = fs name"

definition readDbFile :: "libcrypto \<Rightarrow> files \<Rightarrow> StorageEngine \<Rightarrow> bool \<times> StorageEngine" where
  "readDbFile lib fs st =
     (case readFileContent fs (dbFileName st) of
        None \<Rightarrow> (False, st\<lparr>errorDescription := ''Cannot open DB file: '' @ dbFileName st\<rparr>)
      | Some fileContent \<Rightarrow>
          (case decryptData lib (key st) fileContent of
             None \<Rightarrow> (False, st\<lparr>errorDescription := ''Wrong password or file corruption''\<rparr>)
           | Some plain \<Rightarrow>
               (case ASN1_get_object plain of
                  Asn1Error \<Rightarrow>
                    (False, st\<lparr>errorDescription := ''Password DB structure is corrupted''\<rparr>)
                | Asn1Header ret len tag xclass rest \<Rightarrow>
                    (if ret \<noteq> V_ASN1_CONSTRUCTED \<or> V_ASN1_SEQUENCE \<noteq> tag
                        \<or> V_ASN1_UNIVERSAL \<noteq> xclass \<or> len \<noteq> length rest
                     then (False, st\<lparr>errorDescription := ''Password DB structure is corrupted''\<rparr>)
                     else (True, st\<lparr>data := read_rows rest []\<rparr>)))))"

subsection \<open>\<open>writeDbFile\<close>\<close>








section \<open>\<open>Randomizer\<close>\<close>

type_synonym u32 = "32 word"

text \<open>
  The singleton: \<open>uint32_t pool[8]\<close> and \<open>int poolSize\<close>. The third field is the environment:
  the answers that the calls \<open>RAND_bytes((uint8_t*)pool, sizeof(pool))\<close> still to come will
  give, \<open>Some\<close> of the 256 bits stored into the pool (limb \<open>i\<close> takes bits \<open>32 i\<close> to
  \<open>32 i + 31\<close>) or \<open>None\<close> for a failure; after the last answer every call fails.

  \<open>poolSize\<close> and the bit counts are natural numbers: \<open>poolSize\<close> starts at 0 and is only
  set to 0 or 256 or lowered by an amount a test has just bounded by it, and in C
  \<open>(0 - 1) / 32\<close> is 0 as in the naturals.
\<close>

record Randomizer =
  pool :: "u32 list"
  poolSize :: nat
  RAND :: "256 word option list"

definition limbs :: "256 word \<Rightarrow> u32 list" where
  "limbs w = map (\<lambda>i. ucast (drop_bit (32 * i) w)) [0..<8]"

definition RAND_bytes :: "Randomizer \<Rightarrow> bool \<times> Randomizer" where
  "RAND_bytes rz =
     (case RAND rz of
        [] \<Rightarrow> (False, rz)
      | None # later \<Rightarrow> (False, rz\<lparr>RAND := later\<rparr>)
      | Some w # later \<Rightarrow> (True, rz\<lparr>pool := limbs w, RAND := later\<rparr>))"

subsection \<open>\<open>getBits\<close>\<close>

text \<open>
  The loop \<open>while (count > 0)\<close> (the parameter \<open>count\<close> is \<open>cnt\<close> here). It has no result
  (\<open>None\<close>) when it does not end, which is what the code does for \<open>poolSize = 0\<close>, or when
  it reads a limb beyond \<open>pool[7]\<close>. A shift \<open>res << count\<close> by the full width 32 has no
  defined value in C; \<open>push_bit 32\<close> gives 0. Under the invariant of the pool the branch
  that shifts by \<open>count\<close> while \<open>limbRem <= count\<close> is only entered with \<open>res = 0\<close> (see
  \<open>getBits_loop_ok\<close> below), where every machine gives 0 as well.
\<close>

partial_function (option) getBits_loop ::
  "u32 list \<Rightarrow> nat \<Rightarrow> nat \<Rightarrow> u32 \<Rightarrow> (u32 \<times> u32 list \<times> nat) option" where
  "getBits_loop pl plSize cnt res =
     (if cnt > 0 then
        (let limbNo = (plSize - 1) div 32;
             limbRem = plSize - limbNo * 32
         in if \<not> limbNo < length pl then None
            else if limbRem \<le> cnt then
              getBits_loop pl (plSize - limbRem) (cnt - limbRem)
                (push_bit cnt res OR pl ! limbNo)
            else
              Some (push_bit cnt res OR drop_bit (limbRem - cnt) (pl ! limbNo),
                    pl[limbNo := pl ! limbNo AND NOT (push_bit (limbRem - cnt) (- 1))],
                    plSize - cnt))
      else Some (res, pl, plSize))"

text \<open>
  The result of \<open>getBits\<close>: \<open>None\<close> when the call has no result; otherwise the value stored
  into \<open>*dst\<close> (\<open>None\<close> when the call returns false and stores nothing) and the singleton
  afterwards.
\<close>

definition getBits :: "Randomizer \<Rightarrow> nat \<Rightarrow> (u32 option \<times> Randomizer) option" where
  "getBits rz cnt =
     (if cnt > poolSize rz then
        (let res = pool rz ! 0 AND NOT (push_bit (poolSize rz) (- 1));
             cnt' = cnt - poolSize rz
         in (case RAND_bytes (rz\<lparr>poolSize := 0\<rparr>) of
               (False, rz') \<Rightarrow> Some (None, rz')
             | (True, rz') \<Rightarrow>
                 (case getBits_loop (pool rz') (8 * 32) cnt' res of
                    None \<Rightarrow> None
                  | Some (res', pl, plSize) \<Rightarrow>
                      Some (Some res', rz'\<lparr>pool := pl, poolSize := plSize\<rparr>))))
      else
        (case getBits_loop (pool rz) (poolSize rz) cnt 0 of
           None \<Rightarrow> None
         | Some (res', pl, plSize) \<Rightarrow> Some (Some res', rz\<lparr>pool := pl, poolSize := plSize\<rparr>)))"

declare getBits_loop.simps [code]

text \<open>
  The constructor \<open>Randomizer::Randomizer() : poolSize(0)\<close>. It leaves \<open>pool\<close> as the memory
  was: eight limbs of any content. The answers of the random source are the other argument.
\<close>

definition Randomizer_new :: "u32 list \<Rightarrow> 256 word option list \<Rightarrow> Randomizer" where
  "Randomizer_new junk answers =
     \<lparr>pool = take 8 (junk @ replicate 8 0), poolSize = 0, RAND = answers\<rparr>"

subsection \<open>\<open>makeNumber\<close> and \<open>makePin\<close>\<close>







subsection \<open>\<open>makePassword\<close> and \<open>makeHexBlock\<close>\<close>

definition passwordCharSet :: string where
  "passwordCharSet =
     ''ACDEFGHJKLMNPQRSTUVWXYZabcdefghijkmnpqrstuvwxyz0123456789#*?:+=_'' @ [CHR 0x00]"


text \<open>Reading \<open>table[i]\<close>: no result beyond the end of the array.\<close>

definition char_at :: "string \<Rightarrow> nat \<Rightarrow> char option" where
  "char_at table i = (if i < length table then Some (table ! i) else None)"

function makePassword_loop ::
  "int \<Rightarrow> int \<Rightarrow> Randomizer \<Rightarrow> string \<Rightarrow> (string \<times> Randomizer) option" where
  "makePassword_loop i len rz res =
     (if i < len then
        (case getBits rz 6 of
           None \<Rightarrow> None
         | Some (None, rz') \<Rightarrow> Some (res, rz')
         | Some (Some t, rz') \<Rightarrow>
             (case char_at passwordCharSet (unat t) of
                None \<Rightarrow> None
              | Some c \<Rightarrow> makePassword_loop (i + 1) len rz' (res @ [c])))
      else Some (res, rz))"
  by pat_completeness auto
termination
  by (relation "measure (\<lambda>(i, len, rz, res). nat (len - i))") auto

declare makePassword_loop.simps [simp del]

definition makePassword :: "Randomizer \<Rightarrow> int \<Rightarrow> (string \<times> Randomizer) option" where
  "makePassword rz len = (if len < 0 then None else makePassword_loop 0 len rz [])"




subsection \<open>\<open>makeName\<close>\<close>

text \<open>
  \<open>struct LitInfo { char value[3]; char canDup; uint32_t weight; }\<close> and the three tables.
\<close>

datatype LitInfo = LitInfo (value': string) (canDup: bool) (weight: u32)

definition vowelSet :: "LitInfo list" where
  "vowelSet =
     [LitInfo ''e'' True 5040273, LitInfo ''a'' False 3406646, LitInfo ''o'' True 3221018,
      LitInfo ''i'' False 3063451, LitInfo ''u'' False 1159547, LitInfo ''y'' False 886281]"

definition consonantSet :: "LitInfo list" where
  "consonantSet =
     [LitInfo ''n'' True 1965342, LitInfo ''r'' True 1703266, LitInfo ''t'' False 1674560,
      LitInfo ''s'' True 1466326, LitInfo ''d'' True 1221783, LitInfo ''l'' True 1125424,
      LitInfo [] False 1048588, LitInfo ''th'' False 899191, LitInfo ''c'' True 766989,
      LitInfo ''m'' True 738749, LitInfo ''f'' True 651700, LitInfo ''w'' False 592582,
      LitInfo ''g'' True 573031, LitInfo ''p'' False 514533, LitInfo ''b'' False 421277,
      LitInfo ''v'' False 313281, LitInfo ''sh'' False 310333, LitInfo ''h'' False 263783,
      LitInfo ''ch'' False 201716, LitInfo ''k'' False 195044, LitInfo ''x'' False 48877,
      LitInfo ''qu'' False 31809, LitInfo ''j'' False 29171, LitInfo ''z'' False 19861]"

definition wordEndSet :: "LitInfo list" where
  "wordEndSet =
     [LitInfo [] False 4194304, LitInfo ''t'' False 1331525, LitInfo ''s'' False 1249585,
      LitInfo ''r'' False 1167645, LitInfo ''ck'' False 1085706, LitInfo ''y'' False 1029371,
      LitInfo ''k'' False 1003765, LitInfo ''x'' False 921825, LitInfo ''n'' False 839885,
      LitInfo ''th'' False 757945, LitInfo ''v'' False 676005, LitInfo ''sh'' False 594065,
      LitInfo ''p'' False 512125, LitInfo ''b'' False 430185, LitInfo ''l'' False 348245,
      LitInfo ''z'' False 266305, LitInfo ''ty'' False 221238, LitInfo ''cy'' False 147492]"

text \<open>
  The loop of \<open>getLiteral\<close> over the table: \<open>if (i->weight > t) return i; t -= i->weight;\<close>,
  and \<open>NULL\<close> past the last entry.
\<close>

fun literal_walk :: "LitInfo list \<Rightarrow> u32 \<Rightarrow> LitInfo option" where
  "literal_walk [] t = None"
| "literal_walk (i # st) t = (if weight i > t then Some i else literal_walk st (t - weight i))"

definition getLiteral :: "Randomizer \<Rightarrow> LitInfo list \<Rightarrow> (LitInfo option \<times> Randomizer) option" where
  "getLiteral rz st =
     (case getBits rz 24 of
        None \<Rightarrow> None
      | Some (None, rz') \<Rightarrow> Some (None, rz')
      | Some (Some t, rz') \<Rightarrow> Some (literal_walk st t, rz'))"

text \<open>
  The step that \<open>makeName\<close> repeats:
  \<open>literal = getLiteral(set, sizeof(set)); if (NULL == literal || !getBits(&t, 4)) return res;\<close>
  The inner \<open>None\<close> is the \<open>return\<close>.
\<close>

definition draw_literal ::
  "Randomizer \<Rightarrow> LitInfo list \<Rightarrow> ((LitInfo \<times> u32) option \<times> Randomizer) option" where
  "draw_literal rz st =
     (case getLiteral rz st of
        None \<Rightarrow> None
      | Some (None, rz') \<Rightarrow> Some (None, rz')
      | Some (Some literal, rz') \<Rightarrow>
          (case getBits rz' 4 of
             None \<Rightarrow> None
           | Some (None, rz'') \<Rightarrow> Some (None, rz'')
           | Some (Some t, rz'') \<Rightarrow> Some (Some (literal, t), rz'')))"

text \<open>
  The first loop: \<open>for (i = 0; i < maxSyllables - minSyllables; ++i)\<close>; the inner \<open>None\<close> is
  \<open>return res\<close>.
\<close>

function syllable_count ::
  "int \<Rightarrow> int \<Rightarrow> Randomizer \<Rightarrow> int \<Rightarrow> (int option \<times> Randomizer) option" where
  "syllable_count i n rz syllableCount =
     (if i < n then
        (case getBits rz 1 of
           None \<Rightarrow> None
         | Some (None, rz') \<Rightarrow> Some (None, rz')
         | Some (Some t, rz') \<Rightarrow> syllable_count (i + 1) n rz' (syllableCount + uint t))
      else Some (Some syllableCount, rz))"
  by pat_completeness auto
termination
  by (relation "measure (\<lambda>(i, n, rz, c). nat (n - i))") auto

declare syllable_count.simps [simp del]

text \<open>
  The body of the second loop for syllable \<open>i\<close>. The flag of the result is false when the
  body leaves \<open>makeName\<close> with \<open>return res\<close>.
\<close>

definition syllable :: "int \<Rightarrow> Randomizer \<Rightarrow> string \<Rightarrow> (bool \<times> string \<times> Randomizer) option" where
  "syllable i rz res =
     (case draw_literal rz consonantSet of
        None \<Rightarrow> None
      | Some (None, rz1) \<Rightarrow> Some (False, res, rz1)
      | Some (Some (literal, t), rz1) \<Rightarrow>
          (let res1 = (if 0 \<noteq> i \<or> t \<ge> 4 then res @ value' literal else res)
           in (case (if t = 0 \<and> canDup literal \<and> 0 \<noteq> i
                     then Some (Some (res1 @ value' literal), rz1)
                     else if t \<ge> 12 then
                       (case draw_literal rz1 consonantSet of
                          None \<Rightarrow> None
                        | Some (None, rz2) \<Rightarrow> Some (None, rz2)
                        | Some (Some (literal2, t2), rz2) \<Rightarrow> Some (Some res1, rz2))
                     else Some (Some res1, rz1)) of
                 None \<Rightarrow> None
               | Some (None, rz2) \<Rightarrow> Some (False, res1, rz2)
               | Some (Some res2, rz2) \<Rightarrow>
                   (case draw_literal rz2 vowelSet of
                      None \<Rightarrow> None
                    | Some (None, rz3) \<Rightarrow> Some (False, res2, rz3)
                    | Some (Some (vowel, t3), rz3) \<Rightarrow>
                        (let res3 = res2 @ value' vowel
                         in Some (True,
                                  (if t3 = 0 \<and> canDup vowel \<and> length res3 > 1
                                   then res3 @ value' vowel else res3),
                                  rz3))))))"

function syllables ::
  "int \<Rightarrow> int \<Rightarrow> Randomizer \<Rightarrow> string \<Rightarrow> (bool \<times> string \<times> Randomizer) option" where
  "syllables i syllableCount rz res =
     (if i < syllableCount then
        (case syllable i rz res of
           None \<Rightarrow> None
         | Some (False, res', rz') \<Rightarrow> Some (False, res', rz')
         | Some (True, res', rz') \<Rightarrow> syllables (i + 1) syllableCount rz' res')
      else Some (True, res, rz))"
  by pat_completeness auto
termination
  by (relation "measure (\<lambda>(i, n, rz, res). nat (n - i))") auto

declare syllables.simps [simp del]

definition makeName :: "Randomizer \<Rightarrow> int \<Rightarrow> int \<Rightarrow> (string \<times> Randomizer) option" where
  "makeName rz minSyllables maxSyllables =
     (case syllable_count 0 (maxSyllables - minSyllables) rz minSyllables of
        None \<Rightarrow> None
      | Some (None, rz1) \<Rightarrow> Some ([], rz1)
      | Some (Some syllableCount, rz1) \<Rightarrow>
          (case syllables 0 syllableCount rz1 [] of
             None \<Rightarrow> None
           | Some (False, res, rz2) \<Rightarrow> Some (res, rz2)
           | Some (True, res, rz2) \<Rightarrow>
               (case getLiteral rz2 wordEndSet of
                  None \<Rightarrow> None
                | Some (None, rz3) \<Rightarrow> Some (res, rz3)
                | Some (Some literal, rz3) \<Rightarrow> Some (res @ value' literal, rz3))))"

section \<open>Notions of the specification\<close>

text \<open>
  The part of a cell that \<open>strcmp\<close> reads: the octets before the first zero octet.
\<close>

definition c_str :: "bytes \<Rightarrow> bytes" where
  "c_str bs = takeWhile (\<lambda>b. b \<noteq> 0) bs"

definition c_strings :: "DataRow \<Rightarrow> DataRow" where
  "c_strings r =
     DataRow (c_str (cells r 0)) (c_str (cells r 1)) (c_str (cells r 2)) (c_str (cells r 3))"

text \<open>
  The key of the specification: the four cells in role order, compared as a tuple,
  lexicographically, each cell octet by octet (unsigned). The order is the one of
  \<open>HOL-Library.Product_Lexorder\<close> over the one of \<open>HOL-Library.List_Lexorder\<close>.
\<close>

definition key_tuple :: "DataRow \<Rightarrow> bytes \<times> bytes \<times> bytes \<times> bytes" where
  "key_tuple r = (cells r 0, cells r 1, cells r 2, cells r 3)"

text \<open>
  The frames of the specification: a cell frame is the header of a primitive,
  context-specific object and the cell; a record frame is the header of a constructed
  universal SET and the frames of the non-empty cells in role order.
\<close>

definition cell_frame :: "nat \<Rightarrow> bytes \<Rightarrow> bytes" where
  "cell_frame tag c = ASN1_put_object 0 (length c) tag V_ASN1_CONTEXT_SPECIFIC @ c"

definition record_body :: "DataRow \<Rightarrow> bytes" where
  "record_body r =
     concat (map (\<lambda>i. cell_frame (cellTags ! i) (cells r i))
               (filter (\<lambda>i. cells r i \<noteq> []) [0..<DATA_COLS_COUNT]))"

definition record_frame :: "DataRow \<Rightarrow> bytes" where
  "record_frame r =
     ASN1_put_object 1 (length (record_body r)) V_ASN1_SET V_ASN1_UNIVERSAL @ record_body r"




text \<open>
  An environment for the examples: a cipher that leaves the payload as it is and accepts
  every tag, an all-zero key of the right length, and an engine on the file \<open>db\<close>.
\<close>

definition plain_cipher :: libcrypto where
  "plain_cipher =
     \<lparr>RAND_iv = Some (replicate 12 0),
      gcm_encrypt = (\<lambda>k iv payload. Some (payload, replicate 16 0)),
      gcm_decrypt = (\<lambda>k iv payload mac. Some payload)\<rparr>"

definition engine0 :: StorageEngine where
  "engine0 = \<lparr>data = [], dbFileName = ''db'', errorDescription = [], key = replicate 32 0\<rparr>"


text \<open>
  The invariant of the bit pool. \<open>fits n w\<close>: no bit of \<open>w\<close> is set at position \<open>n\<close> or
  above. The limb that \<open>getBits\<close> reads next is number \<open>(poolSize - 1) / 32\<close>, and
  \<open>poolSize - limbNo * 32\<close> of its bits are unread; the invariant says that the pool has
  its eight limbs, holds at most 256 bits and that the bits already read of the current
  limb are zero.
\<close>

definition fits :: "nat \<Rightarrow> u32 \<Rightarrow> bool" where
  "fits n w \<longleftrightarrow> (\<forall>k. bit w k \<longrightarrow> k < n)"

definition limb_no :: "nat \<Rightarrow> nat" where
  "limb_no ps = (ps - 1) div 32"

definition limb_rem :: "nat \<Rightarrow> nat" where
  "limb_rem ps = ps - limb_no ps * 32"

definition pool_ok :: "u32 list \<Rightarrow> nat \<Rightarrow> bool" where
  "pool_ok pl ps \<longleftrightarrow>
     length pl = 8 \<and> ps \<le> 256 \<and> (0 < ps \<longrightarrow> fits (limb_rem ps) (pl ! limb_no ps))"

definition pool_inv :: "Randomizer \<Rightarrow> bool" where
  "pool_inv rz \<longleftrightarrow> pool_ok (pool rz) (poolSize rz)"

text \<open>
  The draws of a generator that asks for \<open>cnt\<close> bits up to \<open>k\<close> times and stops at the first
  call of \<open>getBits\<close> that returns false: the values drawn, whether every call returned true
  (no failure of the pool), and the singleton afterwards.
\<close>

fun getBits_seq :: "nat \<Rightarrow> nat \<Rightarrow> Randomizer \<Rightarrow> (u32 list \<times> bool \<times> Randomizer) option" where
  "getBits_seq 0 cnt rz = Some ([], True, rz)"
| "getBits_seq (Suc k) cnt rz =
     (case getBits rz cnt of
        None \<Rightarrow> None
      | Some (None, rz') \<Rightarrow> Some ([], False, rz')
      | Some (Some t, rz') \<Rightarrow>
          (case getBits_seq k cnt rz' of
             None \<Rightarrow> None
           | Some (ts, ok, rz'') \<Rightarrow> Some (t # ts, ok, rz'')))"


definition password_alphabet :: string where
  "password_alphabet = take 64 passwordCharSet"


definition pw_char :: "u32 \<Rightarrow> char" where
  "pw_char t = password_alphabet ! unat t"


section \<open>The order of the records\<close>

lemma cols_unfold: "[0..<DATA_COLS_COUNT] = [0, 1, 2, 3]"
  by (simp add: DATA_COLS_COUNT_def upt_rec)

lemma strcmp_neg: "strcmp a b < 0 \<longleftrightarrow> c_str a < c_str b"
  by (induction a b rule: strcmp.induct) (auto simp: c_str_def)

lemma strcmp_pos: "strcmp a b > 0 \<longleftrightarrow> c_str b < c_str a"
  by (induction a b rule: strcmp.induct) (auto simp: c_str_def)

lemma DataRow_less_iff:
  "DataRow_less r1 r2 \<longleftrightarrow> key_tuple (c_strings r1) < key_tuple (c_strings r2)"
  by (cases r1; cases r2)
    (auto simp: DataRow_less_def cols_unfold Let_def strcmp_neg strcmp_pos key_tuple_def
      c_strings_def)

lemma DataRow_less_irrefl: "\<not> DataRow_less r r"
  by (simp add: DataRow_less_iff)

lemma c_str_id: "0 \<notin> set bs \<Longrightarrow> c_str bs = bs"
  unfolding c_str_def by (rule takeWhile_eq_all_conv [THEN iffD2]) auto

lemma c_strings_id:
  assumes "\<forall>i<DATA_COLS_COUNT. 0 \<notin> set (cells r i)"
  shows "c_strings r = r"
proof -
  from assms have "0 \<notin> set (cells r 0)" "0 \<notin> set (cells r 1)"
    "0 \<notin> set (cells r 2)" "0 \<notin> set (cells r 3)"
    by (simp_all add: DATA_COLS_COUNT_def)
  then show ?thesis by (cases r) (simp add: c_strings_def c_str_id)
qed

lemma mset_multiset_insert: "mset (multiset_insert x d) = add_mset x (mset d)"
  by (induction d) auto




text \<open>
  C5, as the claim states it, fails: two cells that differ only after a zero octet are
  told apart by the octet-wise order, not by the comparison of the store.
\<close>

theorem DataRow_less_not_bytewise:
  "key_tuple (DataRow [0x61, 0, 0x62] [] [] []) < key_tuple (DataRow [0x61, 0, 0x63] [] [] [])
   \<and> \<not> DataRow_less (DataRow [0x61, 0, 0x62] [] [] []) (DataRow [0x61, 0, 0x63] [] [] [])"
  by (simp add: key_tuple_def DataRow_less_def cols_unfold)

text \<open>
  C5, amended: \<open>r1 < r2\<close> in the store holds exactly when the tuple of the four cells, each
  read as a C string (cut before its first zero octet), is lexicographically smaller
  octet-wise; for cells without a zero octet these are the cells themselves. Two records
  with the same cells are not less than each other, and inserting both keeps both.
\<close>

theorem DataRow_less_c_string_order:
  "(DataRow_less r1 r2 \<longleftrightarrow> key_tuple (c_strings r1) < key_tuple (c_strings r2))
   \<and> ((\<forall>i<DATA_COLS_COUNT. 0 \<notin> set (cells r1 i) \<and> 0 \<notin> set (cells r2 i))
        \<longrightarrow> (DataRow_less r1 r2 \<longleftrightarrow> key_tuple r1 < key_tuple r2))
   \<and> (key_tuple r1 = key_tuple r2
        \<longrightarrow> \<not> DataRow_less r1 r2 \<and> \<not> DataRow_less r2 r1
            \<and> count (mset (multiset_insert r2 (multiset_insert r1 d))) r1
                = count (mset d) r1 + 2)"
proof (intro conjI impI)
  show "DataRow_less r1 r2 \<longleftrightarrow> key_tuple (c_strings r1) < key_tuple (c_strings r2)"
    by (rule DataRow_less_iff)
next
  assume "\<forall>i<DATA_COLS_COUNT. 0 \<notin> set (cells r1 i) \<and> 0 \<notin> set (cells r2 i)"
  then have "c_strings r1 = r1" "c_strings r2 = r2"
    by (simp_all add: c_strings_id)
  then show "DataRow_less r1 r2 \<longleftrightarrow> key_tuple r1 < key_tuple r2"
    by (simp add: DataRow_less_iff)
next
  assume "key_tuple r1 = key_tuple r2"
  then have eq: "r1 = r2" by (cases r1; cases r2) (simp add: key_tuple_def)
  then show "\<not> DataRow_less r1 r2" "\<not> DataRow_less r2 r1"
    by (simp_all add: DataRow_less_irrefl)
  from eq show "count (mset (multiset_insert r2 (multiset_insert r1 d))) r1
      = count (mset d) r1 + 2"
    by (simp add: mset_multiset_insert)
qed

theorem DataRow_less_c_string_order_witness:
  "key_tuple (DataRow [0x61] [] [] []) < key_tuple (DataRow [0x62] [] [] [])
   \<and> DataRow_less (DataRow [0x61] [] [] []) (DataRow [0x62] [] [] [])
   \<and> key_tuple (DataRow [0x61, 0, 0x62] [] [] []) = key_tuple (DataRow [0x61, 0, 0x62] [] [] [])
   \<and> count (mset (multiset_insert (DataRow [0x61, 0, 0x62] [] [] [])
        (multiset_insert (DataRow [0x61, 0, 0x62] [] [] []) []))) (DataRow [0x61, 0, 0x62] [] [] [])
      = 2"
proof -
  let ?a = "DataRow [0x61] [] [] []" and ?b = "DataRow [0x62] [] [] []"
    and ?c = "DataRow [0x61, 0, 0x62] [] [] []"
  have h: "\<forall>i<DATA_COLS_COUNT. 0 \<notin> set (cells ?a i) \<and> 0 \<notin> set (cells ?b i)"
    by (auto simp: DATA_COLS_COUNT_def)
  have k: "key_tuple ?a < key_tuple ?b"
    by (simp add: key_tuple_def)
  from DataRow_less_c_string_order [of ?a ?b "[]"] h k have l: "DataRow_less ?a ?b"
    by blast
  from DataRow_less_c_string_order [of ?c ?c "[]"]
  have "count (mset (multiset_insert ?c (multiset_insert ?c []))) ?c = count (mset []) ?c + 2"
    by blast
  with k l show ?thesis by simp
qed

section \<open>The record frame\<close>

lemma length_put_octets [simp]: "length (put_octets i n) = i"
  by (induction i n rule: put_octets.induct) auto

lemma length_put_septets [simp]: "length (put_septets i l n) = i"
  by (induction i l n rule: put_septets.induct) auto












section \<open>Writing and reading a frame\<close>







lemma get_octets_zero [simp]: "get_octets acc 0 p = (acc, p)"
  by (cases p) auto








lemma asn1_put_length_nonempty [simp]: "asn1_put_length len \<noteq> []"
  by (simp add: asn1_put_length_def)


lemma cells_append_Nil [simp]: "cells_append i [] row = row"
  by (cases row) simp



lemma cell_frame_nonempty [simp]: "cell_frame tag c \<noteq> []"
  by (simp add: cell_frame_def ASN1_put_object_def Let_def)








lemma record_frame_nonempty [simp]: "record_frame r \<noteq> []"
  by (simp add: record_frame_def ASN1_put_object_def Let_def)












section \<open>The round trip of the codec\<close>

lemma plain_cipher_decrypt:
  "length k = 32 \<Longrightarrow> payload \<noteq> [] \<Longrightarrow> length mactail = 28 \<Longrightarrow>
   decryptData plain_cipher k (payload @ mactail) = Some payload"
  by (simp add: decryptData_def plain_cipher_def EVP_CIPHER_iv_length_def ENC_IV_SIZE_def
      EVP_CIPHER_key_length_def FILE_APPENDIX_SIZE_def ENC_MAC_SIZE_def Let_def)






section \<open>Reading fails without a change to the store\<close>

text \<open>
  C2: when \<open>readDbFile\<close> returns false, the store \<open>data\<close> is as it was and an error text is
  set: the file could not be opened, or it could not be decrypted, or the plaintext does not
  start with a constructed universal SEQUENCE header whose length is exactly the rest of
  the plaintext. When it returns true, the store is replaced by the rows read.
\<close>

theorem readDbFile_failure_atomic:
  "readDbFile lib fs st = (ok, st') \<Longrightarrow>
   (\<not> ok \<longrightarrow>
      data st' = data st
      \<and> errorDescription st' \<noteq> []
      \<and> ((readFileContent fs (dbFileName st) = None
            \<and> errorDescription st' = ''Cannot open DB file: '' @ dbFileName st)
          \<or> (\<exists>c. readFileContent fs (dbFileName st) = Some c
                \<and> decryptData lib (key st) c = None
                \<and> errorDescription st' = ''Wrong password or file corruption'')
          \<or> (\<exists>c p. readFileContent fs (dbFileName st) = Some c
                \<and> decryptData lib (key st) c = Some p
                \<and> (case ASN1_get_object p of
                      Asn1Error \<Rightarrow> True
                    | Asn1Header ret len tag xclass rest \<Rightarrow>
                        ret \<noteq> V_ASN1_CONSTRUCTED \<or> tag \<noteq> V_ASN1_SEQUENCE
                        \<or> xclass \<noteq> V_ASN1_UNIVERSAL \<or> len \<noteq> length rest)
                \<and> errorDescription st' = ''Password DB structure is corrupted'')))
   \<and> (ok \<longrightarrow>
        (\<exists>c p. readFileContent fs (dbFileName st) = Some c
           \<and> decryptData lib (key st) c = Some p
           \<and> st' = st\<lparr>data := read_rows (hrest (ASN1_get_object p)) []\<rparr>))"
  by (auto simp: readDbFile_def split: option.splits asn1_header.splits if_splits)

theorem readDbFile_failure_atomic_witness:
  "readDbFile plain_cipher (\<lambda>name. Some ([0x30, 0x00] @ replicate 28 0))
     (engine0\<lparr>data := [DataRow [0x61] [] [] []], key := replicate 31 0\<rparr>)
   = (False, engine0\<lparr>data := [DataRow [0x61] [] [] []], key := replicate 31 0,
                      errorDescription := ''Wrong password or file corruption''\<rparr>)
   \<and> readDbFile plain_cipher (\<lambda>name. Some ([0x30, 0x00] @ replicate 28 0))
        (engine0\<lparr>data := [DataRow [0x61] [] [] []]\<rparr>)
     = (True, engine0\<lparr>data := []\<rparr>)"
proof -
  let ?fs = "\<lambda>name :: string. Some ([0x30, 0x00] @ replicate 28 (0 :: byte))"
  let ?st = "engine0\<lparr>data := [DataRow [0x61] [] [] []], key := replicate 31 0\<rparr>"
  let ?st2 = "engine0\<lparr>data := [DataRow [0x61] [] [] []]\<rparr>"
  obtain ok st' where r: "readDbFile plain_cipher ?fs ?st = (ok, st')" by fastforce
  have d: "decryptData plain_cipher (key ?st) ([0x30, 0x00] @ replicate 28 0) = None"
    by (simp add: decryptData_def EVP_CIPHER_key_length_def)
  have "readFileContent ?fs (dbFileName ?st) = Some ([0x30, 0x00] @ replicate 28 0)"
    by (simp add: readFileContent_def)
  with d have nok: "\<not> ok" using r by (auto simp: readDbFile_def)
  with readDbFile_failure_atomic [OF r] d
  have "data st' = data ?st" "errorDescription st' = ''Wrong password or file corruption''"
    by (auto simp: readFileContent_def)
  moreover from r have "dbFileName st' = dbFileName ?st" "key st' = key ?st"
    by (auto simp: readDbFile_def split: option.splits asn1_header.splits if_splits)
  ultimately have "st' = ?st\<lparr>errorDescription := ''Wrong password or file corruption''\<rparr>"
    by simp
  with r nok have 1: "readDbFile plain_cipher ?fs ?st
      = (False, ?st\<lparr>errorDescription := ''Wrong password or file corruption''\<rparr>)"
    by simp
  obtain ok2 st2' where r2: "readDbFile plain_cipher ?fs ?st2 = (ok2, st2')" by fastforce
  have d2: "decryptData plain_cipher (key ?st2) ([0x30, 0x00] @ replicate 28 0) = Some [0x30, 0x00]"
    by (rule plain_cipher_decrypt) (simp_all add: engine0_def)
  have g: "ASN1_get_object [0x30, 0x00] = Asn1Header 32 0 16 0 []"
    by (simp add: ASN1_get_object_def asn1_get_length_def asn1_consts)
  from r2 d2 g have ok2: "ok2"
    by (auto simp: readDbFile_def readFileContent_def asn1_consts)
  with readDbFile_failure_atomic [OF r2] d2 g have "st2' = ?st2\<lparr>data := read_rows [] []\<rparr>"
    by (auto simp: readFileContent_def)
  then have "st2' = engine0\<lparr>data := []\<rparr>"
    by (subst (asm) read_rows.simps) simp
  with r2 ok2 1 show ?thesis by simp
qed

section \<open>The file of an empty vault\<close>








section \<open>The bit pool\<close>

lemma fits_32 [simp]: "fits 32 w"
  by (auto simp: fits_def dest: bit_imp_le_length)

lemma fits_mono: "fits m w \<Longrightarrow> m \<le> n \<Longrightarrow> fits n w"
  by (auto simp: fits_def)

lemma fits_0: "fits 0 w \<longleftrightarrow> w = 0"
proof
  assume "fits 0 w"
  then have "\<not> bit w k" for k by (auto simp: fits_def)
  then show "w = 0" by (simp add: bit_eq_iff)
next
  assume "w = 0"
  then show "fits 0 w" by (simp add: fits_def)
qed

lemma fits_mask: "fits n (w AND NOT (push_bit n (- 1)))"
  by (auto simp: fits_def bit_simps)

lemma fits_push_or: "fits a x \<Longrightarrow> fits b y \<Longrightarrow> fits (a + b) (push_bit b x OR y)"
  by (auto simp: fits_def bit_simps)

lemma fits_drop: "fits l w \<Longrightarrow> c \<le> l \<Longrightarrow> fits c (drop_bit (l - c) w)"
  by (auto simp: fits_def bit_simps)

lemma fits_unat: "fits n w \<Longrightarrow> unat w < 2 ^ n"
proof -
  assume f: "fits n w"
  have "take_bit n w = w"
    by (rule bit_eqI) (use f in \<open>auto simp: fits_def bit_simps\<close>)
  then have "unat w = take_bit n (unat w)"
    by (metis unsigned_take_bit_eq)
  then show ?thesis
    by (metis take_bit_nat_less_exp)
qed

lemma getBits_loop_0: "getBits_loop pl ps 0 res = Some (res, pl, ps)"
  by (subst getBits_loop.simps) simp

lemma getBits_loop_last:
  assumes "0 < cnt" "limb_no ps < length pl" "cnt < limb_rem ps"
  shows "getBits_loop pl ps cnt res
    = Some (push_bit cnt res OR drop_bit (limb_rem ps - cnt) (pl ! limb_no ps),
            pl[limb_no ps := pl ! limb_no ps AND NOT (push_bit (limb_rem ps - cnt) (- 1))],
            ps - cnt)"
  using assms by (subst getBits_loop.simps) (simp add: limb_no_def limb_rem_def Let_def)

lemma getBits_loop_step:
  assumes "0 < cnt" "limb_no ps < length pl" "limb_rem ps \<le> cnt"
  shows "getBits_loop pl ps cnt res
    = getBits_loop pl (ps - limb_rem ps) (cnt - limb_rem ps) (push_bit cnt res OR pl ! limb_no ps)"
  using assms by (subst getBits_loop.simps) (simp add: limb_no_def limb_rem_def Let_def)

lemma limb_decomp:
  assumes "0 < r" "r \<le> 32"
  shows "limb_no (32 * q + r) = q" "limb_rem (32 * q + r) = r"
proof -
  from assms have "32 * q + r - 1 = 32 * q + (r - 1)" by simp
  moreover from assms have "(32 * q + (r - 1)) div 32 = q" by simp
  ultimately show "limb_no (32 * q + r) = q" by (simp add: limb_no_def)
  then show "limb_rem (32 * q + r) = r" by (simp add: limb_rem_def)
qed

lemma limb_split:
  assumes "0 < (ps::nat)"
  obtains q r where "ps = 32 * q + r" "0 < r" "r \<le> 32"
proof
  have "ps - 1 = 32 * ((ps - 1) div 32) + (ps - 1) mod 32" by simp
  with assms show "ps = 32 * ((ps - 1) div 32) + ((ps - 1) mod 32 + 1)" by linarith
  show "0 < (ps - 1) mod 32 + 1" by simp
  have "(ps - 1) mod 32 < 32" by simp
  then show "(ps - 1) mod 32 + 1 \<le> 32" by linarith
qed

lemma fits_and_mask: "fits n (w AND mask n)"
  by (auto simp: fits_def bit_simps)

lemma pool_ok_part:
  assumes "length pl = 8" "32 * q + r \<le> 256" "0 < r" "r \<le> 32" "fits r (pl ! q)"
  shows "pool_ok pl (32 * q + r)"
  using assms by (simp add: pool_ok_def limb_decomp)

lemma pool_ok_whole:
  assumes "length pl = 8" "32 * q \<le> 256"
  shows "pool_ok pl (32 * q)"
proof (cases q)
  case 0
  with assms show ?thesis by (simp add: pool_ok_def)
next
  case (Suc k)
  then have "32 * q = 32 * k + 32" by simp
  with assms show ?thesis
    using pool_ok_part [of pl k 32] by simp
qed

lemma getBits_loop_ok:
  assumes len: "length pl = 8"
    and ps: "ps = 32 * q + r" "0 < r" "r \<le> 32" "ps \<le> 256"
    and top: "fits r (pl ! q)"
    and cnt: "0 < cnt" "cnt \<le> ps"
    and res: "fits a res" "a + cnt \<le> 32" "res = 0 \<or> cnt < r"
  shows "\<exists>v pl'. getBits_loop pl ps cnt res = Some (v, pl', ps - cnt)
           \<and> fits (a + cnt) v \<and> pool_ok pl' (ps - cnt)"
proof -
  from ps have q8: "q < 8" by simp
  from ps have ln: "limb_no ps = q" and lr: "limb_rem ps = r"
    by (simp_all add: limb_decomp)
  show ?thesis
  proof (cases "cnt < r")
    case True
    let ?v = "push_bit cnt res OR drop_bit (r - cnt) (pl ! q)"
    let ?pl = "pl[q := pl ! q AND NOT (push_bit (r - cnt) (- 1))]"
    have "getBits_loop pl ps cnt res = Some (?v, ?pl, ps - cnt)"
      using getBits_loop_last [of cnt ps pl res] cnt(1) q8 len True by (simp add: ln lr)
    moreover have "fits (a + cnt) ?v"
      using res(1) top True by (intro fits_push_or fits_drop) simp_all
    moreover have "pool_ok ?pl (ps - cnt)"
    proof -
      from True ps have e: "ps - cnt = 32 * q + (r - cnt)" by simp
      show ?thesis
        unfolding e using len ps True q8
        by (intro pool_ok_part) (simp_all add: fits_mask fits_and_mask)
    qed
    ultimately show ?thesis by blast
  next
    case False
    with res(3) have r0: "res = 0" by simp
    from False have rc: "r \<le> cnt" by simp
    have e: "ps - r = 32 * q" using ps by simp
    have step: "getBits_loop pl ps cnt res = getBits_loop pl (32 * q) (cnt - r) (pl ! q)"
      using getBits_loop_step [of cnt ps pl res] cnt(1) q8 len rc
      by (simp add: ln lr r0 e)
    show ?thesis
    proof (cases "cnt = r")
      case True
      then have "getBits_loop pl ps cnt res = Some (pl ! q, pl, ps - cnt)"
        using step e by (simp add: getBits_loop_0)
      moreover have "fits (a + cnt) (pl ! q)"
        using fits_mono [OF top, of "a + cnt"] True by simp
      moreover have "pool_ok pl (ps - cnt)"
        using len ps True e by (simp add: pool_ok_whole)
      ultimately show ?thesis by blast
    next
      case False
      with rc have c': "0 < cnt - r" by simp
      from cnt(2) ps have "cnt - r \<le> 32 * q" by simp
      with c' obtain k where k: "q = Suc k" by (cases q) auto
      then have e2: "32 * q = 32 * k + 32" by simp
      from res(2) ps(2) c' have c31: "cnt - r < 32" by simp
      let ?v = "push_bit (cnt - r) (pl ! q) OR drop_bit (32 - (cnt - r)) (pl ! k)"
      let ?pl = "pl[k := pl ! k AND NOT (push_bit (32 - (cnt - r)) (- 1))]"
      from k q8 have k8: "k < 8" by simp
      have ln2: "limb_no (32 * k + 32) = k" and lr2: "limb_rem (32 * k + 32) = 32"
        by (simp_all add: limb_decomp)
      have "getBits_loop pl (32 * q) (cnt - r) (pl ! q) = Some (?v, ?pl, 32 * q - (cnt - r))"
        unfolding e2
        using getBits_loop_last [of "cnt - r" "32 * k + 32" pl "pl ! q"] c' k8 len c31
        by (simp add: ln2 lr2)
      moreover have "32 * q - (cnt - r) = ps - cnt" using ps rc \<open>cnt - r \<le> 32 * q\<close> by simp
      moreover have "fits (r + (cnt - r)) ?v"
        using top c31 by (intro fits_push_or fits_drop) simp_all
      then have "fits (a + cnt) ?v"
        using rc fits_mono [of "r + (cnt - r)" ?v "a + cnt"] by simp
      moreover have "pool_ok ?pl (ps - cnt)"
      proof -
        from ps rc c31 k have e3: "ps - cnt = 32 * k + (32 - (cnt - r))" by simp
        show ?thesis
          unfolding e3 using len ps c' c31 k8 k
          by (intro pool_ok_part) (simp_all add: fits_mask fits_and_mask)
      qed
      ultimately show ?thesis using step by simp
    qed
  qed
qed

lemma length_limbs [simp]: "length (limbs w) = 8"
  by (simp add: limbs_def)

lemma pool_ok_0: "length pl = 8 \<Longrightarrow> pool_ok pl 0"
  by (simp add: pool_ok_def)

lemma pool_ok_full: "length pl = 8 \<Longrightarrow> pool_ok pl 256"
  using pool_ok_whole [of pl 8] by simp

lemma getBits_ok:
  assumes inv: "pool_inv rz" and n: "0 < n" "n \<le> 32"
  shows "\<exists>r rz'. getBits rz n = Some (r, rz') \<and> pool_inv rz'
           \<and> (\<forall>v. r = Some v \<longrightarrow> fits n v)"
proof (cases "n > poolSize rz")
  case False
  then have le: "n \<le> poolSize rz" by simp
  with n have pos: "0 < poolSize rz" by simp
  from pos obtain q r where qr: "poolSize rz = 32 * q + r" "0 < r" "r \<le> 32"
    by (rule limb_split)
  from inv pos qr have len: "length (pool rz) = 8" and p256: "poolSize rz \<le> 256"
    and top: "fits r (pool rz ! q)"
    by (simp_all add: pool_inv_def pool_ok_def limb_decomp)
  have "fits 0 (0 :: u32)" by (simp add: fits_0)
  from getBits_loop_ok [OF len qr p256 top n(1) le this, of ] n(2)
  obtain v pl' where
    l: "getBits_loop (pool rz) (poolSize rz) n 0 = Some (v, pl', poolSize rz - n)"
    and f: "fits n v" and ok: "pool_ok pl' (poolSize rz - n)"
    by auto
  from False l have "getBits rz n = Some (Some v, rz\<lparr>pool := pl', poolSize := poolSize rz - n\<rparr>)"
    by (simp add: getBits_def)
  with f ok show ?thesis by (simp add: pool_inv_def)
next
  case True
  from inv have len: "length (pool rz) = 8" by (simp add: pool_inv_def pool_ok_def)
  let ?res = "pool rz ! 0 AND NOT (push_bit (poolSize rz) (- 1))"
  let ?cnt = "n - poolSize rz"
  show ?thesis
  proof (cases "RAND rz")
    case Nil
    then have "getBits rz n = Some (None, rz\<lparr>poolSize := 0\<rparr>)"
      using True by (simp add: getBits_def RAND_bytes_def Let_def)
    with len show ?thesis by (simp add: pool_inv_def pool_ok_0)
  next
    case (Cons a later)
    show ?thesis
    proof (cases a)
      case None
      with Cons have "getBits rz n = Some (None, rz\<lparr>poolSize := 0, RAND := later\<rparr>)"
        using True by (simp add: getBits_def RAND_bytes_def Let_def)
      with len show ?thesis by (simp add: pool_inv_def pool_ok_0)
    next
      case (Some w)
      let ?rz = "rz\<lparr>poolSize := 0, pool := limbs w, RAND := later\<rparr>"
      have fr: "fits (poolSize rz) ?res" by (rule fits_mask)
      have c: "0 < ?cnt" "?cnt \<le> 256" using True n by simp_all
      have z: "?res = 0 \<or> ?cnt < 32"
      proof (cases "poolSize rz = 0")
        case True
        with fr show ?thesis by (simp add: fits_0)
      next
        case False
        with n have "?cnt < 32" by linarith
        then show ?thesis by blast
      qed
      have "256 = 32 * 7 + (32::nat)" by simp
      from getBits_loop_ok [OF length_limbs this _ _ _ _ c(1) c(2) fr _ z, of w] True n
      obtain v pl' where
        l: "getBits_loop (limbs w) 256 ?cnt ?res = Some (v, pl', 256 - ?cnt)"
        and f: "fits n v" and ok: "pool_ok pl' (256 - ?cnt)"
        by auto
      from Cons Some True l
      have "getBits rz n = Some (Some v, ?rz\<lparr>pool := pl', poolSize := 256 - ?cnt\<rparr>)"
        by (simp add: getBits_def RAND_bytes_def Let_def)
      with f ok show ?thesis by (simp add: pool_inv_def)
    qed
  qed
qed

section \<open>The generators\<close>










lemma length_passwordCharSet: "length passwordCharSet = 65"
  by (simp add: passwordCharSet_def)


lemma password_lookup:
  assumes "fits 6 t"
  shows "char_at passwordCharSet (unat t) = Some (pw_char t)" "pw_char t \<in> set password_alphabet"
proof -
  from fits_unat [OF assms] have u: "unat t < 64" by simp
  then show "char_at passwordCharSet (unat t) = Some (pw_char t)"
    by (simp add: char_at_def length_passwordCharSet pw_char_def password_alphabet_def)
  from u show "pw_char t \<in> set password_alphabet"
    unfolding pw_char_def by (intro nth_mem) (simp add: password_alphabet_def length_passwordCharSet)
qed




lemma makePassword_loop_seq:
  assumes "pool_inv rz"
  shows "\<exists>ts ok rz'. getBits_seq (nat (n - i)) 6 rz = Some (ts, ok, rz')
           \<and> makePassword_loop i n rz res = Some (res @ map pw_char ts, rz')
           \<and> pool_inv rz' \<and> (\<forall>t\<in>set ts. fits 6 t)
           \<and> (if ok then length ts = nat (n - i) else length ts < nat (n - i))"
  using assms
proof (induction i n rz res rule: makePassword_loop.induct)
  case (1 i n rz res)
  show ?case
  proof (cases "i < n")
    case False
    with "1.prems" show ?thesis
      by (subst makePassword_loop.simps) auto
  next
    case True
    then have s: "nat (n - i) = Suc (nat (n - (i + 1)))" by simp
    from getBits_ok [OF "1.prems", of 6] obtain r rz1 where
      g: "getBits rz 6 = Some (r, rz1)" and i1: "pool_inv rz1"
      and f: "\<forall>v. r = Some v \<longrightarrow> fits 6 v" by auto
    show ?thesis
    proof (cases r)
      case None
      with g True have "makePassword_loop i n rz res = Some (res, rz1)"
        by (subst makePassword_loop.simps) simp
      with g None i1 show ?thesis by (auto simp: s)
    next
      case (Some t)
      with f have ft: "fits 6 t" by simp
      note ch = password_lookup(1) [OF ft]
      from "1.IH" [OF True g [unfolded Some] refl refl ch i1] obtain ts ok rz' where
        q: "getBits_seq (nat (n - (i + 1))) 6 rz1 = Some (ts, ok, rz')"
        and l: "makePassword_loop (i + 1) n rz1 (res @ [pw_char t])
                 = Some ((res @ [pw_char t]) @ map pw_char ts, rz')"
        and i': "pool_inv rz'" and fs: "\<forall>t\<in>set ts. fits 6 t"
        and c: "if ok then length ts = nat (n - (i + 1)) else length ts < nat (n - (i + 1))"
        by blast
      have "makePassword_loop i n rz res = Some (res @ map pw_char (t # ts), rz')"
        using True g Some ch l by (subst makePassword_loop.simps) simp
      moreover have "getBits_seq (nat (n - i)) 6 rz = Some (t # ts, ok, rz')"
        using g Some q by (simp add: s)
      ultimately show ?thesis
        using i' fs ft c s by (intro exI [of _ "t # ts"] exI [of _ ok] exI [of _ rz']) auto
    qed
  qed
qed


lemma pool_inv_new: "pool_inv (Randomizer_new junk answers)"
  by (simp add: pool_inv_def pool_ok_def Randomizer_new_def)

lemma pool_inv_full: "length pl = 8 \<Longrightarrow> pool_inv \<lparr>pool = pl, poolSize = 256, RAND = a\<rparr>"
  by (simp add: pool_inv_def pool_ok_full)








text \<open>
  C10: in a singleton that satisfies the invariant of the pool (already read bits of the
  current limb are zero), as the new singleton does, \<open>getBits\<close> with \<open>1 \<le> n \<le> 32\<close>
  returns, the singleton satisfies the invariant afterwards, and when it returns true the
  value stored is below \<open>2^n\<close>. So \<open>makePassword\<close> returns for every length, which it does
  only if no read of \<open>passwordCharSet\<close> is out of bounds, and every character of its result
  is one of the 64 of the alphabet.
\<close>

theorem getBits_below_two_power:
  assumes "pool_inv rz" "1 \<le> n" "n \<le> 32"
  shows "(\<exists>r rz'. getBits rz n = Some (r, rz') \<and> pool_inv rz'
            \<and> (\<forall>v. r = Some v \<longrightarrow> unat v < 2 ^ n))
    \<and> (0 \<le> len \<longrightarrow>
          (\<exists>res rz'. makePassword rz len = Some (res, rz') \<and> pool_inv rz'
             \<and> set res \<subseteq> set password_alphabet))
    \<and> pool_inv (Randomizer_new junk answers)"
proof (intro conjI impI)
  from assms getBits_ok [of rz n] obtain r rz' where
    "getBits rz n = Some (r, rz')" "pool_inv rz'" "\<forall>v. r = Some v \<longrightarrow> fits n v"
    by auto
  then show "\<exists>r rz'. getBits rz n = Some (r, rz') \<and> pool_inv rz'
      \<and> (\<forall>v. r = Some v \<longrightarrow> unat v < 2 ^ n)"
    using fits_unat by blast
next
  assume "0 \<le> len"
  from makePassword_loop_seq [OF assms(1), of len 0 "[]"] obtain ts ok rz' where
    l: "makePassword_loop 0 len rz [] = Some ([] @ map pw_char ts, rz')"
    and i: "pool_inv rz'" and f: "\<forall>t\<in>set ts. fits 6 t"
    by blast
  from f have "set (map pw_char ts) \<subseteq> set password_alphabet"
    using password_lookup(2) by auto
  with l i \<open>0 \<le> len\<close>
  show "\<exists>res rz'. makePassword rz len = Some (res, rz') \<and> pool_inv rz'
      \<and> set res \<subseteq> set password_alphabet"
    by (simp add: makePassword_def)
next
  show "pool_inv (Randomizer_new junk answers)" by (rule pool_inv_new)
qed

theorem getBits_below_two_power_witness:
  "getBits \<lparr>pool = [0, 0, 0, 0, 0, 0, 0, 0xB4000000], poolSize = 256, RAND = []\<rparr> 6
     = Some (Some 45, \<lparr>pool = [0, 0, 0, 0, 0, 0, 0, 0], poolSize = 250, RAND = []\<rparr>)
   \<and> unat (45 :: u32) < 2 ^ 6
   \<and> makePassword \<lparr>pool = [0, 0, 0, 0, 0, 0, 0, 0xB4000000], poolSize = 256, RAND = []\<rparr> 1
     = Some (''y'', \<lparr>pool = [0, 0, 0, 0, 0, 0, 0, 0], poolSize = 250, RAND = []\<rparr>)"
proof -
  let ?rz = "\<lparr>pool = [0, 0, 0, 0, 0, 0, 0, 0xB4000000], poolSize = 256, RAND = []\<rparr>"
  let ?rz' = "\<lparr>pool = [0, 0, 0, 0, 0, 0, 0, 0], poolSize = 250, RAND = []\<rparr>"
  have i: "pool_inv ?rz" by (rule pool_inv_full) simp
  have g: "getBits ?rz 6 = Some (Some 45, ?rz')"
    by code_simp
  have p: "makePassword ?rz 1 = Some (''y'', ?rz')"
    by code_simp
  from getBits_below_two_power [OF i, of 6 1 "[]" "[]"]
  have "unat (45 :: u32) < 2 ^ 6"
    using g by auto
  with g p show ?thesis by blast
qed








text \<open>
  C3 does not hold of the code: in the branch \<open>else if (t >= 12)\<close> the second consonant is
  drawn and never appended. Here the first syllable draws \<open>n\<close> with \<open>t = 15\<close>, then the
  additional consonant \<open>r\<close>, then the vowel \<open>e\<close>, and the name is \<open>ne\<close>, not \<open>nre\<close>.
\<close>

theorem makeName_drops_additional_consonant:
  "draw_literal \<lparr>pool = [0, 0, 0, 0, 0, 0x5000, 0x500, 0xF2], poolSize = 256, RAND = []\<rparr>
     consonantSet
     = Some (Some (LitInfo ''n'' True 1965342, 15),
             \<lparr>pool = [0, 0, 0, 0, 0, 0x5000, 0x500, 2], poolSize = 228, RAND = []\<rparr>)
   \<and> draw_literal \<lparr>pool = [0, 0, 0, 0, 0, 0x5000, 0x500, 2], poolSize = 228, RAND = []\<rparr>
       consonantSet
     = Some (Some (LitInfo ''r'' True 1703266, 5),
             \<lparr>pool = [0, 0, 0, 0, 0, 0x5000, 0, 2], poolSize = 200, RAND = []\<rparr>)
   \<and> makeName \<lparr>pool = [0, 0, 0, 0, 0, 0x5000, 0x500, 0xF2], poolSize = 256, RAND = []\<rparr> 1 1
     = Some (''ne'', \<lparr>pool = [0, 0, 0, 0, 0, 0, 0, 2], poolSize = 148, RAND = []\<rparr>)"
  by code_simp

end
